theory Spec2Isabelle
  imports Complex_Main
begin

section \<open>JavaScript numbers\<close>

text \<open>
  Every number of \<^verbatim>\<open>server.js\<close> is an IEEE-754 binary64 value. \<open>Fin x\<close> is the finite
  double whose exact value is the rational \<open>x\<close>; the other constructors are the two
  infinities and NaN. The sign of zero is not represented: the program only adds,
  subtracts, multiplies, compares and tests numbers for truthiness, and none of these
  tells \<open>-0\<close> from \<open>+0\<close> in a way that reaches a response or a counter.

  \<open>to_double\<close> rounds a rational to the nearest double, ties to even: the spacing of
  doubles around \<open>x\<close> is \<open>2 ^ (ilog2 x - 52)\<close>, never below \<open>2 ^ - 1074\<close> (the subnormal
  spacing), and a result of magnitude \<open>2 ^ 1024\<close> or more is an infinity. A decimal
  literal of the source is the rounding of its decimal value: \<open>lit m d\<close> is the literal
  with the digits \<open>m\<close>, the last \<open>d\<close> of them after the point (\<^verbatim>\<open>0.01\<close> is \<open>lit 1 2\<close>,
  \<^verbatim>\<open>0.25\<close> is \<open>lit 25 2\<close>). An arithmetic operator rounds the exact result.
\<close>

datatype number = Fin rat | PInf | NInf | NaN

function bit_length :: "int \<Rightarrow> nat" where
  "bit_length n = (if n \<le> 0 then 0 else Suc (bit_length (n div 2)))"
  by pat_completeness auto
termination
  by (relation "measure nat") auto

declare bit_length.simps [simp del]

definition ilog2 :: "rat \<Rightarrow> int" where
  \<comment> \<open>for \<open>0 < x\<close>: the \<open>e\<close> with \<open>2 ^ e \<le> x < 2 ^ (e + 1)\<close>\<close>
  "ilog2 x = (if 1 \<le> x then int (bit_length \<lfloor>x\<rfloor>) - 1
              else - int (bit_length (\<lceil>1 / x\<rceil> - 1)))"

definition pow2 :: "int \<Rightarrow> rat" where
  "pow2 e = (if 0 \<le> e then 2 ^ nat e else 1 / 2 ^ nat (- e))"

definition round_half_even :: "rat \<Rightarrow> int" where
  "round_half_even x =
     (let f = \<lfloor>x\<rfloor>; d = x - of_int f
      in if d < 1 / 2 then f else if 1 / 2 < d then f + 1 else if even f then f else f + 1)"

definition to_double :: "rat \<Rightarrow> number" where
  "to_double x =
     (if x = 0 then Fin 0
      else let a = \<bar>x\<bar>;
               s = max (ilog2 a - 52) (- 1074);
               m = of_int (round_half_even (a / pow2 s)) * pow2 s
           in if m = 0 then Fin 0
              else if 1024 \<le> ilog2 m then (if x < 0 then NInf else PInf)
              else Fin (if x < 0 then - m else m))"

definition lit :: "int \<Rightarrow> nat \<Rightarrow> number" where
  "lit m d = to_double (of_int m / 10 ^ d)"

fun fneg :: "number \<Rightarrow> number" where
  "fneg (Fin a) = Fin (- a)"
| "fneg PInf = NInf"
| "fneg NInf = PInf"
| "fneg NaN = NaN"

fun fadd :: "number \<Rightarrow> number \<Rightarrow> number" where
  "fadd (Fin a) (Fin b) = to_double (a + b)"
| "fadd (Fin a) PInf = PInf"
| "fadd (Fin a) NInf = NInf"
| "fadd PInf (Fin b) = PInf"
| "fadd PInf PInf = PInf"
| "fadd NInf (Fin b) = NInf"
| "fadd NInf NInf = NInf"
| "fadd _ _ = NaN"

definition fsub :: "number \<Rightarrow> number \<Rightarrow> number" where
  "fsub x y = fadd x (fneg y)"

fun fsgn :: "number \<Rightarrow> rat" where
  "fsgn (Fin a) = sgn a"
| "fsgn PInf = 1"
| "fsgn NInf = - 1"
| "fsgn NaN = 0"

fun fmul :: "number \<Rightarrow> number \<Rightarrow> number" where
  "fmul (Fin a) (Fin b) = to_double (a * b)"
| "fmul NaN _ = NaN"
| "fmul _ NaN = NaN"
| "fmul x y =
     (if fsgn x * fsgn y = 0 then NaN else if 0 < fsgn x * fsgn y then PInf else NInf)"

fun fgt :: "number \<Rightarrow> number \<Rightarrow> bool" where
  "fgt (Fin a) (Fin b) = (b < a)"
| "fgt (Fin a) NInf = True"
| "fgt PInf (Fin b) = True"
| "fgt PInf NInf = True"
| "fgt _ _ = False"

section \<open>Workers\<close>

text \<open>
  \<^verbatim>\<open>class AIAgent\<close>. The counters \<open>tasksCompleted\<close> and \<open>cycleCount\<close> are JavaScript
  numbers that only ever hold non-negative integers and only change by \<^verbatim>\<open>++\<close>; they are
  natural numbers here (a double counts exactly up to \<open>2 ^ 53\<close>). The earnings are
  added with \<^verbatim>\<open>+=\<close>, in double precision.
\<close>

record counters =
  tasksCompleted :: nat
  totalEarnings :: number

record agent_stats = counters +
  successRate :: number

record agent =
  name :: string
  capabilities :: "string list"
  stats :: agent_stats
  isActive :: bool

text \<open>A task; its fields \<^verbatim>\<open>id\<close> and \<^verbatim>\<open>keywords\<close> are \<open>task_id\<close> and \<open>task_keywords\<close>.\<close>

record task =
  task_id :: nat
  title :: string
  reward :: number
  task_keywords :: "string list"

text \<open>The object \<^verbatim>\<open>executeTask\<close> returns: \<^verbatim>\<open>{ success: true, earnings }\<close> or \<^verbatim>\<open>{ success: false }\<close>.\<close>

record outcome =
  success :: bool
  earnings :: "number option"

definition new_agent :: "string \<Rightarrow> string list \<Rightarrow> agent" where
  "new_agent n caps =
     \<lparr>name = n, capabilities = caps,
      stats = \<lparr>tasksCompleted = 0, totalEarnings = Fin 0, successRate = lit 75 2\<rparr>,
      isActive = True\<rparr>"

text \<open>
  \<^verbatim>\<open>findTasks\<close>, after its one-second timer: \<open>now\<close> is the reading of \<^verbatim>\<open>Date.now()\<close>.
\<close>

definition findTasks :: "agent \<Rightarrow> nat \<Rightarrow> task list" where
  "findTasks a now =
     [\<lparr>task_id = now, title = ''Sample Task'', reward = lit 1 2,
       task_keywords = capabilities a\<rparr>]"

text \<open>
  \<^verbatim>\<open>executeTask\<close>, after its two-second timer: \<open>rnd\<close> is the value \<^verbatim>\<open>Math.random()\<close> returns.
  The result is the agent as mutated and the returned object.
\<close>

definition executeTask :: "agent \<Rightarrow> task \<Rightarrow> number \<Rightarrow> agent \<times> outcome" where
  "executeTask a t rnd =
     (if fgt rnd (lit 25 2)
      then (a\<lparr>stats := (stats a)\<lparr>tasksCompleted := tasksCompleted (stats a) + 1,
                                    totalEarnings := fadd (totalEarnings (stats a)) (reward t)\<rparr>\<rparr>,
            \<lparr>success = True, earnings = Some (reward t)\<rparr>)
      else (a, \<lparr>success = False, earnings = None\<rparr>))"

text \<open>\<^verbatim>\<open>AIAgent.getStats\<close>: \<^verbatim>\<open>{ name, isActive, ...this.stats }\<close>.\<close>

record agent_snapshot = agent_stats +
  snap_name :: string
  snap_isActive :: bool

definition agent_getStats :: "agent \<Rightarrow> agent_snapshot" where
  "agent_getStats a =
     \<lparr>tasksCompleted = tasksCompleted (stats a), totalEarnings = totalEarnings (stats a),
      successRate = successRate (stats a), snap_name = name a, snap_isActive = isActive a\<rparr>"

section \<open>The orchestrator\<close>

text \<open>
  \<^verbatim>\<open>class Orchestrator\<close>. Its field \<^verbatim>\<open>stats\<close> is \<open>ostats\<close> here (the agent's field has the
  name already); \<^verbatim>\<open>walletService\<close> is stored and never read by the class, and is left
  out.
\<close>

record orch_stats = counters +
  cycleCount :: nat

record orchestrator =
  agents :: "agent list"
  isRunning :: bool
  ostats :: orch_stats

definition new_orchestrator :: orchestrator where
  "new_orchestrator =
     \<lparr>agents = [new_agent ''GitcoinAgent'' [''smart-contract'', ''web3''],
                new_agent ''UpworkAgent'' [''frontend'', ''react''],
                new_agent ''BountyAgent'' [''testing'', ''security'']],
      isRunning = False,
      ostats = \<lparr>tasksCompleted = 0, totalEarnings = Fin 0, cycleCount = 0\<rparr>\<rparr>"

definition stop :: "orchestrator \<Rightarrow> orchestrator" where
  "stop orc = orc\<lparr>isRunning := False\<rparr>"

record orch_snapshot = counters +
  snap_isRunning :: bool
  agentsActive :: nat
  lastSync :: string
  snap_agents :: "agent_snapshot list"

text \<open>\<^verbatim>\<open>Orchestrator.getStats\<close>; \<open>clock\<close> is \<^verbatim>\<open>new Date().toLocaleTimeString()\<close>.\<close>

definition getStats :: "orchestrator \<Rightarrow> string \<Rightarrow> orch_snapshot" where
  "getStats orc clock =
     \<lparr>tasksCompleted = tasksCompleted (ostats orc), totalEarnings = totalEarnings (ostats orc),
      snap_isRunning = isRunning orc,
      agentsActive = length (filter isActive (agents orc)),
      lastSync = clock,
      snap_agents = map agent_getStats (agents orc)\<rparr>"

subsection \<open>The cycle loop\<close>

text \<open>
  \<^verbatim>\<open>runCycle\<close> is an \<^verbatim>\<open>async\<close> function: it runs without interruption from one \<^verbatim>\<open>await\<close>
  of a timer to the next, and between two such points every other piece of code of
  the process (a request handler, a call of \<^verbatim>\<open>start\<close> or \<^verbatim>\<open>stop\<close>) may run. An \<open>await\<close>
  on a promise that is already settled, as the one \<^verbatim>\<open>executeTask\<close> returns, does not
  give way to a request handler. A loop instance is therefore, at any moment another
  piece of code can observe, at one of these points:
  \<^item> \<open>Discovering i rest\<close>: inside \<^verbatim>\<open>findTasks\<close> of agent number \<open>i\<close>, with the agents \<open>rest\<close>
    of this cycle's filtered list still to visit;
  \<^item> \<open>Executing i t ts rest\<close>: inside \<^verbatim>\<open>executeTask\<close> of agent \<open>i\<close> on task \<open>t\<close>, with the
    tasks \<open>ts\<close> of its slice still to run;
  \<^item> \<open>Sleeping ms\<close>: in the sleep that ends an iteration, of \<open>ms\<close> milliseconds;
  \<^item> \<open>Exited\<close>: the loop has ended, by the test of the \<^verbatim>\<open>while\<close> or by an error thrown
    out of the \<^verbatim>\<open>catch\<close> block.

  The agents of \<^verbatim>\<open>this.agents.filter(a => a.isActive)\<close> are object references; the
  array \<^verbatim>\<open>this.agents\<close> is never resized, so a reference is a position in it.
\<close>

datatype pc =
  Discovering nat "nat list"
| Executing nat task "task list" "nat list"
| Sleeping nat
| Exited

text \<open>
  How an awaited call of a worker ends: it returns (\<open>Fulfilled now rnd\<close>, with the clock
  and the random number the call reads), or it throws. The calls of the source never
  throw; the second case stands for a failing discovery or execution put in their
  place, which throws before it has changed a counter. What is thrown is any
  JavaScript value: \<open>Err msg\<close> is an \<^verbatim>\<open>Error\<close> with the message \<open>msg\<close> (or any other value
  whose property \<^verbatim>\<open>message\<close> can be read), \<open>Nullish\<close> is \<^verbatim>\<open>null\<close> or \<^verbatim>\<open>undefined\<close>, as a
  promise rejected without a reason gives.
\<close>

datatype thrown = Err string | Nullish

datatype settled = Fulfilled nat number | Rejected thrown

definition active_agents :: "agent list \<Rightarrow> nat list" where
  "active_agents as = filter (\<lambda>i. isActive (as ! i)) [0..<length as]"

text \<open>The head of the \<^verbatim>\<open>for\<close> loop over the agents, and of the one over an agent's tasks.\<close>

fun next_agent :: "nat list \<Rightarrow> pc" where
  "next_agent [] = Sleeping 300000"
| "next_agent (i # rest) = Discovering i rest"

fun next_task :: "nat \<Rightarrow> task list \<Rightarrow> nat list \<Rightarrow> pc" where
  "next_task i [] rest = next_agent rest"
| "next_task i (t # ts) rest = Executing i t ts rest"

text \<open>The test of the \<^verbatim>\<open>while\<close> loop and the start of an iteration.\<close>

definition loop_head :: "orchestrator \<Rightarrow> orchestrator \<times> pc" where
  "loop_head orc =
     (if isRunning orc
      then (orc\<lparr>ostats := (ostats orc)\<lparr>cycleCount := cycleCount (ostats orc) + 1\<rparr>\<rparr>,
            next_agent (active_agents (agents orc)))
      else (orc, Exited))"

text \<open>
  The lines of \<^verbatim>\<open>runCycle\<close> after \<^verbatim>\<open>executeTask\<close> has returned \<open>r\<close>. The earnings of a
  result without the field are \<^verbatim>\<open>undefined\<close>, which \<^verbatim>\<open>+=\<close> turns into NaN.
\<close>

definition credit :: "orchestrator \<Rightarrow> outcome \<Rightarrow> orchestrator" where
  "credit orc r =
     (if success r
      then orc\<lparr>ostats := (ostats orc)
             \<lparr>totalEarnings :=
                fadd (totalEarnings (ostats orc)) (case earnings r of Some e \<Rightarrow> e | None \<Rightarrow> NaN),
              tasksCompleted := tasksCompleted (ostats orc) + 1\<rparr>\<rparr>
      else orc)"

text \<open>
  One run of the loop from the point \<open>p\<close>, where its awaited call or timer settles, to
  its next such point. The timers of the two sleeps are the loop's own and cannot
  throw. What is thrown inside the \<^verbatim>\<open>try\<close> block lands in \<^verbatim>\<open>catch\<close>, which logs
  \<^verbatim>\<open>error.message\<close> and sleeps one minute. Reading \<^verbatim>\<open>message\<close> of \<^verbatim>\<open>null\<close> or \<^verbatim>\<open>undefined\<close>
  throws a \<^verbatim>\<open>TypeError\<close> out of the \<^verbatim>\<open>catch\<close> block: \<^verbatim>\<open>runCycle\<close> ends there, with the
  running flag as it is.
\<close>

fun resume :: "orchestrator \<Rightarrow> pc \<Rightarrow> settled \<Rightarrow> orchestrator \<times> pc" where
  "resume orc (Sleeping ms) _ = loop_head orc"
| "resume orc (Discovering i rest) (Fulfilled now rnd) =
     (orc, next_task i (take 2 (findTasks (agents orc ! i) now)) rest)"
| "resume orc (Executing i t ts rest) (Fulfilled now rnd) =
     (let (a, r) = executeTask (agents orc ! i) t rnd
      in (credit (orc\<lparr>agents := (agents orc)[i := a]\<rparr>) r, next_task i ts rest))"
| "resume orc (Discovering i rest) (Rejected (Err msg)) = (orc, Sleeping 60000)"
| "resume orc (Executing i t ts rest) (Rejected (Err msg)) = (orc, Sleeping 60000)"
| "resume orc (Discovering i rest) (Rejected Nullish) = (orc, Exited)"
| "resume orc (Executing i t ts rest) (Rejected Nullish) = (orc, Exited)"
| "resume orc Exited _ = (orc, Exited)"

subsection \<open>The orchestrator and its loops, event by event\<close>

text \<open>
  The state another piece of code can observe: the orchestrator object and the loop
  instances \<^verbatim>\<open>runCycle\<close> has been called for. An event is a call of \<^verbatim>\<open>start\<close>, a call of
  \<^verbatim>\<open>stop\<close>, or the settling of what loop number \<open>k\<close> awaits. \<^verbatim>\<open>start\<close> calls \<^verbatim>\<open>runCycle\<close>
  without awaiting it, which runs up to its first \<^verbatim>\<open>await\<close> before \<^verbatim>\<open>start\<close> returns.
\<close>

record system =
  orch :: orchestrator
  loops :: "pc list"

datatype event = Start | Stop | Settle nat settled

fun step :: "system \<Rightarrow> event \<Rightarrow> system" where
  "step s Start =
     (if isRunning (orch s) then s
      else let (orc, p) = loop_head ((orch s)\<lparr>isRunning := True\<rparr>)
           in \<lparr>orch = orc, loops = loops s @ [p]\<rparr>)"
| "step s Stop = s\<lparr>orch := stop (orch s)\<rparr>"
| "step s (Settle k out) =
     (if k < length (loops s)
      then let (orc, p) = resume (orch s) (loops s ! k) out
           in \<lparr>orch = orc, loops = (loops s)[k := p]\<rparr>
      else s)"

definition run :: "system \<Rightarrow> event list \<Rightarrow> system" where
  "run s evs = foldl step s evs"

definition boot :: system where
  "boot = \<lparr>orch = new_orchestrator, loops = []\<rparr>"

definition live :: "pc \<Rightarrow> bool" where
  "live p = (p \<noteq> Exited)"

definition working :: "pc \<Rightarrow> bool" where
  "working p = (case p of Discovering i rest \<Rightarrow> True | Executing i t ts rest \<Rightarrow> True | _ \<Rightarrow> False)"

section \<open>The wallet service and the routes\<close>

text \<open>
  A value of a JSON request body, or \<^verbatim>\<open>undefined\<close> for a field that is absent; \<open>JObject\<close>
  is any object or array. \<open>truthy\<close> is the test \<^verbatim>\<open>!v\<close> negates. The arithmetic operators
  convert their operands to numbers; what a string, an object or an array converts to
  is a parameter \<open>co\<close> of the model.
\<close>

datatype jsval = JUndefined | JNull | JBool bool | JNum number | JStr string | JObject

fun truthy :: "jsval \<Rightarrow> bool" where
  "truthy JUndefined = False"
| "truthy JNull = False"
| "truthy (JBool b) = b"
| "truthy (JNum n) = (n \<noteq> Fin 0 \<and> n \<noteq> NaN)"
| "truthy (JStr s) = (s \<noteq> [])"
| "truthy JObject = True"

fun to_number :: "(jsval \<Rightarrow> number) \<Rightarrow> jsval \<Rightarrow> number" where
  "to_number co JUndefined = NaN"
| "to_number co JNull = Fin 0"
| "to_number co (JBool b) = (if b then Fin 1 else Fin 0)"
| "to_number co (JNum n) = n"
| "to_number co v = co v"

text \<open>
  \<^verbatim>\<open>WalletService.sendETH\<close>. The \<^verbatim>\<open>ethers\<close> library and the network behind it are the
  record \<open>chain\<close>: \<open>isAddress\<close> is \<^verbatim>\<open>ethers.utils.isAddress\<close>, and \<open>transact\<close> is the rest of
  the method (gas price, unit conversion, sending, waiting for the receipt), which
  throws an error with a message or yields the transaction's hash and block number.
\<close>

record chain =
  isAddress :: "jsval \<Rightarrow> bool"
  transact :: "jsval \<Rightarrow> number \<Rightarrow> string + string \<times> nat"

record transfer =
  txHash :: string
  blockNumber :: nat

definition sendETH :: "chain \<Rightarrow> jsval \<Rightarrow> number \<Rightarrow> string + transfer" where
  "sendETH ch toAddr amt =
     (if \<not> isAddress ch toAddr then Inl ''Invalid address''
      else case transact ch toAddr amt of
             Inl msg \<Rightarrow> Inl msg
           | Inr (h, b) \<Rightarrow> Inr \<lparr>txHash = h, blockNumber = b\<rparr>)"

text \<open>
  The text of an error: a string of the program, or the engine's text for reading a
  property of \<^verbatim>\<open>undefined\<close>. The bodies of the responses, and a response with its status;
  \<open>ParserErrorBody\<close> is what the framework answers for a body the JSON parser refuses.
\<close>

datatype message = Msg string | TypeErrorMsg

datatype body =
  ParserErrorBody
| ErrorBody message
| FailureBody message
| PayoutBody transfer number number
| StopBody
| StatsBody orch_snapshot
| AgentsBody "agent_snapshot list"

datatype response = Json nat body

record request =
  apiKey :: "string option"
  toAddress :: jsval
  amount :: jsval

text \<open>
  \<^verbatim>\<open>POST /api/payout\<close>. \<open>adminKey\<close> is \<^verbatim>\<open>process.env.ADMIN_API_KEY\<close> and \<open>ws\<close> the global
  \<^verbatim>\<open>walletService\<close>, \<^verbatim>\<open>undefined\<close> until \<^verbatim>\<open>init\<close> has set it. The result is the response and
  the calls of \<^verbatim>\<open>sendETH\<close> the handler made, with their arguments.
\<close>

definition payout ::
  "(jsval \<Rightarrow> number) \<Rightarrow> string option \<Rightarrow> chain option \<Rightarrow> request
     \<Rightarrow> response \<times> (jsval \<times> number) list" where
  "payout co adminKey ws req =
     (if apiKey req \<noteq> adminKey then (Json 403 (FailureBody (Msg ''Unauthorized'')), [])
      else if \<not> truthy (toAddress req) \<or> \<not> truthy (amount req)
      then (Json 400 (ErrorBody (Msg ''Missing fields'')), [])
      else
        let fee = fmul (to_number co (amount req)) (lit 2 2);
            netAmount = fsub (to_number co (amount req)) fee
        in case ws of
             None \<Rightarrow> (Json 500 (FailureBody TypeErrorMsg), [])
           | Some ch \<Rightarrow>
               (case sendETH ch (toAddress req) netAmount of
                  Inl msg \<Rightarrow> (Json 500 (FailureBody (Msg msg)), [(toAddress req, netAmount)])
                | Inr result \<Rightarrow>
                    (Json 200 (PayoutBody result netAmount fee), [(toAddress req, netAmount)])))"

text \<open>
  A payout request as it arrives. \<^verbatim>\<open>app.use(express.json())\<close> stands before every route:
  the body is parsed before the handler runs. A body that is not valid JSON
  (\<open>Unparsable\<close>) is answered by the framework with status 400 and the handler is not
  called; otherwise \<^verbatim>\<open>req.body\<close> is an object, of which the handler reads the fields
  \<^verbatim>\<open>toAddress\<close> and \<^verbatim>\<open>amount\<close> (\<open>Parsed toAddress amount\<close>, a missing field being
  \<^verbatim>\<open>undefined\<close>).
\<close>

datatype payload = Unparsable | Parsed jsval jsval

record raw_request =
  header_key :: "string option"
  content :: payload

definition payout_route ::
  "(jsval \<Rightarrow> number) \<Rightarrow> string option \<Rightarrow> chain option \<Rightarrow> raw_request
     \<Rightarrow> response \<times> (jsval \<times> number) list" where
  "payout_route co adminKey ws rq =
     (case content rq of
        Unparsable \<Rightarrow> (Json 400 ParserErrorBody, [])
      | Parsed a b \<Rightarrow>
          payout co adminKey ws \<lparr>apiKey = header_key rq, toAddress = a, amount = b\<rparr>)"

text \<open>
  \<^verbatim>\<open>POST /api/emergency-stop\<close>, \<^verbatim>\<open>GET /api/stats\<close> and \<^verbatim>\<open>GET /api/agents\<close>. The global
  \<^verbatim>\<open>orchestrator\<close> is \<^verbatim>\<open>undefined\<close> until \<^verbatim>\<open>init\<close> has constructed it, three seconds after
  the server started to listen. The emergency stop has no \<^verbatim>\<open>try\<close> block: it either
  throws (\<open>Inl\<close>) or answers and leaves the orchestrator as \<^verbatim>\<open>stop\<close> made it.
\<close>

definition emergency_stop ::
  "string option \<Rightarrow> system option \<Rightarrow> string option
     \<Rightarrow> message + response \<times> system option" where
  "emergency_stop adminKey orc key =
     (if key \<noteq> adminKey then Inr (Json 403 (ErrorBody (Msg ''Unauthorized'')), orc)
      else case orc of
             None \<Rightarrow> Inl TypeErrorMsg
           | Some s \<Rightarrow> Inr (Json 200 StopBody, Some (step s Stop)))"

definition stats_route :: "system option \<Rightarrow> string \<Rightarrow> response" where
  "stats_route orc clock =
     (case orc of
        None \<Rightarrow> Json 503 (ErrorBody (Msg ''Not initialized''))
      | Some s \<Rightarrow> Json 200 (StatsBody (getStats (orch s) clock)))"

definition agents_route :: "system option \<Rightarrow> response" where
  "agents_route orc =
     (case orc of
        None \<Rightarrow> Json 503 (ErrorBody (Msg ''Not initialized''))
      | Some s \<Rightarrow> Json 200 (AgentsBody (map agent_getStats (agents (orch s)))))"

section \<open>Notions used by the properties\<close>

text \<open>
  \<open>rsum n\<close> is the counter \<^verbatim>\<open>totalEarnings\<close> after \<open>n\<close> additions of the reward \<^verbatim>\<open>0.01\<close>, each
  rounded as \<^verbatim>\<open>+=\<close> rounds it.
\<close>

definition rsum :: "nat \<Rightarrow> number" where
  "rsum n = ((\<lambda>x. fadd x (lit 1 2)) ^^ n) (Fin 0)"

text \<open>
  A loop point is well formed for a pool of \<open>n\<close> agents when its agent positions are
  inside the pool and its pending tasks carry the reward of \<^verbatim>\<open>findTasks\<close>. \<open>consistent\<close>
  is the invariant of the observable states.
\<close>

fun pc_ok :: "nat \<Rightarrow> pc \<Rightarrow> bool" where
  "pc_ok n (Discovering i rest) = (i < n \<and> list_all (\<lambda>j. j < n) rest)"
| "pc_ok n (Executing i t ts rest) =
     (i < n \<and> list_all (\<lambda>j. j < n) rest \<and> list_all (\<lambda>u. reward u = lit 1 2) (t # ts))"
| "pc_ok n (Sleeping ms) = True"
| "pc_ok n Exited = True"

definition consistent :: "system \<Rightarrow> bool" where
  "consistent s =
     (tasksCompleted (ostats (orch s)) =
        sum_list (map (\<lambda>a. tasksCompleted (stats a)) (agents (orch s))) \<and>
      totalEarnings (ostats (orch s)) = rsum (tasksCompleted (ostats (orch s))) \<and>
      list_all (\<lambda>a. totalEarnings (stats a) = rsum (tasksCompleted (stats a)))
        (agents (orch s)) \<and>
      list_all (pc_ok (length (agents (orch s)))) (loops s))"

text \<open>
  An upper bound of the number of times a loop at the point \<open>p\<close> still settles before
  it has left the \<^verbatim>\<open>while\<close> loop, once the running flag is off.
\<close>

fun work_left :: "pc \<Rightarrow> nat" where
  "work_left (Discovering i rest) = 4 + 4 * length rest"
| "work_left (Executing i t ts rest) = 2 + length ts + 4 * length rest"
| "work_left (Sleeping ms) = 1"
| "work_left Exited = 0"

text \<open>
  For a loop inside a cycle: how many times what it awaits settles until it sleeps,
  and how many tasks it executes until then, when every call returns.
\<close>

fun settles_left :: "pc \<Rightarrow> nat" where
  "settles_left (Discovering i rest) = 2 + 2 * length rest"
| "settles_left (Executing i t ts rest) = 1 + length ts + 2 * length rest"
| "settles_left (Sleeping ms) = 0"
| "settles_left Exited = 0"

fun tasks_left :: "pc \<Rightarrow> nat" where
  "tasks_left (Discovering i rest) = 1 + length rest"
| "tasks_left (Executing i t ts rest) = 1 + length ts + length rest"
| "tasks_left (Sleeping ms) = 0"
| "tasks_left Exited = 0"

text \<open>The events after which a loop is gone without \<^verbatim>\<open>stop\<close>.\<close>

fun fatal :: "event \<Rightarrow> bool" where
  "fatal (Settle k (Rejected Nullish)) = True"
| "fatal _ = False"

text \<open>
  Events and runs the examples use. \<open>ok\<close> lets what the first loop awaits return, with
  the clock at 0 and \<^verbatim>\<open>Math.random()\<close> giving \<^verbatim>\<open>0.5\<close>, so that a task succeeds. In
  \<open>two_cycles\<close> the orchestrator is started and its three agents each find and complete
  a task, the loop sleeps, and they do so once more.
\<close>

definition ok :: event where
  "ok = Settle 0 (Fulfilled 0 (Fin (1 / 2)))"

definition one_cycle :: "event list" where
  "one_cycle = [ok, ok, ok, ok, ok, ok]"

definition two_cycles :: "event list" where
  "two_cycles = Start # one_cycle @ ok # one_cycle"

text \<open>An initialised wallet whose network refuses every transaction.\<close>

definition refusing :: chain where
  "refusing = \<lparr>isAddress = (\<lambda>v. True), transact = (\<lambda>a n. Inl ''insufficient funds'')\<rparr>"

section \<open>Numbers of the program, evaluated\<close>

lemma lit_25_2: "lit 25 2 = Fin (1 / 4)"
  by code_simp

lemma half_gt_quarter: "fgt (Fin (1 / 2)) (lit 25 2)"
  by code_simp

lemma fadd_cent_1: "fadd (Fin 0) (lit 1 2) = Fin (5764607523034235 / 576460752303423488)"
  by code_simp

lemma fadd_cent_2:
  "fadd (Fin (5764607523034235 / 576460752303423488)) (lit 1 2) =
     Fin (5764607523034235 / 288230376151711744)"
  by code_simp

lemma fadd_cent_3:
  "fadd (Fin (5764607523034235 / 288230376151711744)) (lit 1 2) =
     Fin (1080863910568919 / 36028797018963968)"
  by code_simp

lemma fadd_cent_4:
  "fadd (Fin (1080863910568919 / 36028797018963968)) (lit 1 2) =
     Fin (5764607523034235 / 144115188075855872)"
  by code_simp

lemma fadd_cent_5:
  "fadd (Fin (5764607523034235 / 144115188075855872)) (lit 1 2) =
     Fin (3602879701896397 / 72057594037927936)"
  by code_simp

lemma fadd_cent_6:
  "fadd (Fin (3602879701896397 / 72057594037927936)) (lit 1 2) =
     Fin (8646911284551353 / 144115188075855872)"
  by code_simp

lemmas fadd_cents = fadd_cent_1 fadd_cent_2 fadd_cent_3 fadd_cent_4 fadd_cent_5 fadd_cent_6

lemma workers_sum:
  "foldl fadd (Fin 0)
     [Fin (5764607523034235 / 288230376151711744), Fin (5764607523034235 / 288230376151711744),
      Fin (5764607523034235 / 288230376151711744)] =
   Fin (1080863910568919 / 18014398509481984)"
  by code_simp

lemma cent_times_six: "fmul (lit 1 2) (Fin 6) = Fin (1080863910568919 / 18014398509481984)"
  by code_simp

lemma fee_of_hundred: "fmul (Fin 100) (lit 2 2) = Fin 2"
  by code_simp

lemma net_of_hundred: "fsub (Fin 100) (Fin 2) = Fin 98"
  by code_simp

lemma net_of_minus_five:
  "fsub (Fin (- 5)) (fmul (Fin (- 5)) (lit 2 2)) = Fin (- (2758454771764429 / 562949953421312))"
  by code_simp

section \<open>Runs, evaluated\<close>

lemmas run_eval = run_def boot_def new_orchestrator_def new_agent_def loop_head_def
  active_agents_def findTasks_def executeTask_def credit_def stop_def Let_def upt_rec
  ok_def one_cycle_def two_cycles_def

lemma started: "run boot [Start] =
  \<lparr>orch = new_orchestrator\<lparr>isRunning := True,
       ostats := \<lparr>tasksCompleted = 0, totalEarnings = Fin 0, cycleCount = 1\<rparr>\<rparr>,
   loops = [Discovering 0 [1, 2]]\<rparr>"
  by (simp add: run_eval)

lemma two_cycles_state: "run boot two_cycles =
  \<lparr>orch =
    \<lparr>agents =
       [\<lparr>name = ''GitcoinAgent'', capabilities = [''smart-contract'', ''web3''],
         stats = \<lparr>tasksCompleted = 2,
                  totalEarnings = Fin (5764607523034235 / 288230376151711744),
                  successRate = lit 75 2\<rparr>,
         isActive = True\<rparr>,
        \<lparr>name = ''UpworkAgent'', capabilities = [''frontend'', ''react''],
         stats = \<lparr>tasksCompleted = 2,
                  totalEarnings = Fin (5764607523034235 / 288230376151711744),
                  successRate = lit 75 2\<rparr>,
         isActive = True\<rparr>,
        \<lparr>name = ''BountyAgent'', capabilities = [''testing'', ''security''],
         stats = \<lparr>tasksCompleted = 2,
                  totalEarnings = Fin (5764607523034235 / 288230376151711744),
                  successRate = lit 75 2\<rparr>,
         isActive = True\<rparr>],
     isRunning = True,
     ostats = \<lparr>tasksCompleted = 6,
               totalEarnings = Fin (8646911284551353 / 144115188075855872),
               cycleCount = 2\<rparr>\<rparr>,
   loops = [Sleeping 300000]\<rparr>"
  by (simp add: run_eval half_gt_quarter fadd_cents)

lemma stopped_in_discovery: "run boot [Start, Stop, ok, ok] =
  \<lparr>orch =
    \<lparr>agents =
       [\<lparr>name = ''GitcoinAgent'', capabilities = [''smart-contract'', ''web3''],
         stats = \<lparr>tasksCompleted = 1,
                  totalEarnings = Fin (5764607523034235 / 576460752303423488),
                  successRate = lit 75 2\<rparr>,
         isActive = True\<rparr>,
        new_agent ''UpworkAgent'' [''frontend'', ''react''],
        new_agent ''BountyAgent'' [''testing'', ''security'']],
     isRunning = False,
     ostats = \<lparr>tasksCompleted = 1,
               totalEarnings = Fin (5764607523034235 / 576460752303423488),
               cycleCount = 1\<rparr>\<rparr>,
   loops = [Discovering 1 [2]]\<rparr>"
  by (simp add: run_eval half_gt_quarter fadd_cents)

section \<open>The invariant of the observable states\<close>

lemma rsum_Suc: "rsum (Suc n) = fadd (rsum n) (lit 1 2)"
  by (simp add: rsum_def)

lemma rsum_0: "rsum 0 = Fin 0"
  by (simp add: rsum_def)

lemma pc_ok_next_agent: "list_all (\<lambda>j. j < n) rest \<Longrightarrow> pc_ok n (next_agent rest)"
  by (cases rest) auto

lemma pc_ok_next_task:
  "i < n \<Longrightarrow> list_all (\<lambda>j. j < n) rest \<Longrightarrow> list_all (\<lambda>u. reward u = lit 1 2) ts \<Longrightarrow>
     pc_ok n (next_task i ts rest)"
  by (cases ts) (auto simp: pc_ok_next_agent)

lemma active_agents_bound: "list_all (\<lambda>j. j < length as) (active_agents as)"
  by (simp add: active_agents_def list_all_iff)

lemma consistent_boot: "consistent boot"
  by (simp add: consistent_def boot_def new_orchestrator_def new_agent_def rsum_0)

lemma loop_head_agents: "agents (fst (loop_head orc)) = agents orc"
  by (simp add: loop_head_def)

lemma loop_head_counters:
  "tasksCompleted (ostats (fst (loop_head orc))) = tasksCompleted (ostats orc)"
  "totalEarnings (ostats (fst (loop_head orc))) = totalEarnings (ostats orc)"
  by (simp_all add: loop_head_def)

lemma loop_head_pc_ok: "pc_ok (length (agents orc)) (snd (loop_head orc))"
  by (simp add: loop_head_def pc_ok_next_agent active_agents_bound)

lemma sum_list_bump:
  "i < length xs \<Longrightarrow> f a = Suc (f (xs ! i)) \<Longrightarrow>
     sum_list (map f (xs[i := a])) = Suc (sum_list (map f xs))"
proof (induction xs arbitrary: i)
  case Nil
  then show ?case by simp
next
  case (Cons x xs)
  then show ?case by (cases i) auto
qed

lemma list_all_update:
  "list_all P xs \<Longrightarrow> P a \<Longrightarrow> list_all P (xs[i := a])"
  by (induction xs arbitrary: i) (auto split: nat.splits)

lemma list_all_nth: "list_all P xs \<Longrightarrow> i < length xs \<Longrightarrow> P (xs ! i)"
  by (simp add: list_all_length)

lemma consistent_resume:
  assumes c: "consistent s" and k: "k < length (loops s)"
    and r: "resume (orch s) (loops s ! k) out = (orc, p)"
  shows "consistent \<lparr>orch = orc, loops = (loops s)[k := p]\<rparr>"
proof -
  let ?o = "orch s"
  let ?n = "length (agents ?o)"
  from c have sums: "tasksCompleted (ostats ?o) = sum_list (map (\<lambda>a. tasksCompleted (stats a)) (agents ?o))"
    and agg: "totalEarnings (ostats ?o) = rsum (tasksCompleted (ostats ?o))"
    and ws: "list_all (\<lambda>a. totalEarnings (stats a) = rsum (tasksCompleted (stats a))) (agents ?o)"
    and pcs: "list_all (pc_ok ?n) (loops s)"
    by (simp_all add: consistent_def)
  from pcs k have ok: "pc_ok ?n (loops s ! k)" by (rule list_all_nth)
  show ?thesis
  proof (cases "loops s ! k")
    case (Sleeping ms)
    with r have o: "orc = fst (loop_head ?o)" and p: "p = snd (loop_head ?o)" by auto
    show ?thesis
      using sums agg ws pcs
      by (simp add: consistent_def o p loop_head_agents loop_head_counters loop_head_pc_ok
          list_all_update)
  next
    case Exited
    with r have "orc = ?o" "p = Exited" by auto
    then show ?thesis using sums agg ws pcs by (simp add: consistent_def list_all_update)
  next
    case (Discovering i rest)
    with ok have i: "i < ?n" and rest: "list_all (\<lambda>j. j < ?n) rest" by auto
    show ?thesis
    proof (cases out)
      case (Rejected th)
      with r Discovering have "orc = ?o" "pc_ok ?n p" by (cases th; auto)+
      then show ?thesis using sums agg ws pcs by (simp add: consistent_def list_all_update)
    next
      case (Fulfilled now rnd)
      with r Discovering have o: "orc = ?o"
        and p: "p = next_task i (take 2 (findTasks (agents ?o ! i) now)) rest" by auto
      have "pc_ok ?n p"
        unfolding p by (rule pc_ok_next_task [OF i rest]) (simp add: findTasks_def)
      then show ?thesis using sums agg ws pcs by (simp add: consistent_def o list_all_update)
    qed
  next
    case (Executing i t ts rest)
    with ok have i: "i < ?n" and rest: "list_all (\<lambda>j. j < ?n) rest"
      and t: "reward t = lit 1 2" and ts: "list_all (\<lambda>u. reward u = lit 1 2) ts" by auto
    show ?thesis
    proof (cases out)
      case (Rejected th)
      with r Executing have "orc = ?o" "pc_ok ?n p" by (cases th; auto)+
      then show ?thesis using sums agg ws pcs by (simp add: consistent_def list_all_update)
    next
      case (Fulfilled now rnd)
      have pok: "pc_ok ?n (next_task i ts rest)" by (rule pc_ok_next_task [OF i rest ts])
      from ws i have wi: "totalEarnings (stats (agents ?o ! i)) = rsum (tasksCompleted (stats (agents ?o ! i)))"
        by (rule list_all_nth)
      show ?thesis
      proof (cases "fgt rnd (lit 25 2)")
        case False
        with r Executing Fulfilled have o: "orc = ?o\<lparr>agents := (agents ?o)[i := agents ?o ! i]\<rparr>"
          and p: "p = next_task i ts rest"
          by (auto simp: executeTask_def credit_def)
        show ?thesis using sums agg ws pcs pok
          by (simp add: consistent_def o p list_all_update)
      next
        case True
        define a where "a = (agents ?o ! i)\<lparr>stats := (stats (agents ?o ! i))
            \<lparr>tasksCompleted := tasksCompleted (stats (agents ?o ! i)) + 1,
             totalEarnings := fadd (totalEarnings (stats (agents ?o ! i))) (reward t)\<rparr>\<rparr>"
        from True r Executing Fulfilled
        have o: "orc = ?o\<lparr>agents := (agents ?o)[i := a],
                   ostats := (ostats ?o)\<lparr>totalEarnings := fadd (totalEarnings (ostats ?o)) (reward t),
                     tasksCompleted := tasksCompleted (ostats ?o) + 1\<rparr>\<rparr>"
          and p: "p = next_task i ts rest"
          by (auto simp: executeTask_def credit_def a_def)
        have a1: "tasksCompleted (stats a) = Suc (tasksCompleted (stats (agents ?o ! i)))"
          by (simp add: a_def)
        have a2: "totalEarnings (stats a) = rsum (tasksCompleted (stats a))"
          by (simp add: a_def wi t rsum_Suc)
        have s': "sum_list (map (\<lambda>a. tasksCompleted (stats a)) ((agents ?o)[i := a])) =
            Suc (sum_list (map (\<lambda>a. tasksCompleted (stats a)) (agents ?o)))"
          using i a1 by (rule sum_list_bump)
        show ?thesis using sums agg ws pcs pok a2 s'
          by (simp add: consistent_def o p list_all_update t rsum_Suc)
      qed
    qed
  qed
qed

lemma consistent_step: "consistent s \<Longrightarrow> consistent (step s e)"
proof (cases e)
  case Start
  assume c: "consistent s"
  show ?thesis
  proof (cases "isRunning (orch s)")
    case True
    with c Start show ?thesis by simp
  next
    case False
    let ?o = "(orch s)\<lparr>isRunning := True\<rparr>"
    have "step s e = \<lparr>orch = fst (loop_head ?o), loops = loops s @ [snd (loop_head ?o)]\<rparr>"
      using False Start by (simp add: case_prod_beta)
    moreover have "pc_ok (length (agents (orch s))) (snd (loop_head ?o))"
      using loop_head_pc_ok [of ?o] by simp
    ultimately show ?thesis
      using c by (simp add: consistent_def loop_head_agents loop_head_counters)
  qed
next
  case Stop
  assume "consistent s"
  with Stop show ?thesis by (simp add: consistent_def stop_def)
next
  case (Settle k out)
  assume c: "consistent s"
  show ?thesis
  proof (cases "k < length (loops s)")
    case False
    with c Settle show ?thesis by simp
  next
    case True
    obtain orc p where r: "resume (orch s) (loops s ! k) out = (orc, p)" by fastforce
    from consistent_resume [OF c True r] Settle True r show ?thesis by simp
  qed
qed

lemma consistent_run: "consistent s \<Longrightarrow> consistent (run s evs)"
  unfolding run_def by (induction evs arbitrary: s) (auto simp: consistent_step)

section \<open>The running flag and the life of a loop\<close>

lemma step_settle:
  "k < length (loops s) \<Longrightarrow>
     step s (Settle k out) =
       \<lparr>orch = fst (resume (orch s) (loops s ! k) out),
        loops = (loops s)[k := snd (resume (orch s) (loops s ! k) out)]\<rparr>"
  by (simp add: case_prod_beta)

lemma resume_isRunning: "isRunning (fst (resume orc p out)) = isRunning orc"
  by (cases "(orc, p, out)" rule: resume.cases)
    (auto simp: loop_head_def credit_def executeTask_def split: prod.splits)

lemma next_agent_live: "next_agent rest \<noteq> Exited"
  by (cases rest) auto

lemma next_task_live: "next_task i ts rest \<noteq> Exited"
  by (cases ts) (auto simp: next_agent_live)

lemma resume_live:
  "isRunning orc \<Longrightarrow> live p \<Longrightarrow> out \<noteq> Rejected Nullish \<Longrightarrow> live (snd (resume orc p out))"
  by (cases "(orc, p, out)" rule: resume.cases)
    (auto simp: loop_head_def next_agent_live next_task_live live_def split: prod.splits)

lemma step_keeps_running:
  assumes "e \<noteq> Stop" "\<not> fatal e" "isRunning (orch s)" "k < length (loops s)" "live (loops s ! k)"
  shows "isRunning (orch (step s e)) \<and> k < length (loops (step s e)) \<and> live (loops (step s e) ! k)"
proof (cases e)
  case Start
  with assms show ?thesis by simp
next
  case Stop
  with assms show ?thesis by simp
next
  case (Settle j out)
  with assms(2) have out: "out \<noteq> Rejected Nullish" by auto
  show ?thesis
  proof (cases "j < length (loops s)")
    case False
    with assms Settle show ?thesis by simp
  next
    case True
    have run': "isRunning (fst (resume (orch s) (loops s ! j) out))"
      using assms(3) by (simp add: resume_isRunning)
    have "live ((loops s)[j := snd (resume (orch s) (loops s ! j) out)] ! k)"
    proof (cases "j = k")
      case True
      with assms resume_live [of "orch s" "loops s ! k" out] out show ?thesis by simp
    next
      case False
      with assms show ?thesis by simp
    qed
    with True Settle run' assms(4) show ?thesis by (simp add: case_prod_beta)
  qed
qed

lemma run_keeps_running:
  "Stop \<notin> set evs \<Longrightarrow> list_all (\<lambda>e. \<not> fatal e) evs \<Longrightarrow> isRunning (orch s) \<Longrightarrow>
   k < length (loops s) \<Longrightarrow> live (loops s ! k) \<Longrightarrow>
     isRunning (orch (run s evs)) \<and> k < length (loops (run s evs)) \<and> live (loops (run s evs) ! k)"
proof (induction evs arbitrary: s)
  case Nil
  then show ?case by (simp add: run_def)
next
  case (Cons e evs)
  from Cons.prems have e: "e \<noteq> Stop" "\<not> fatal e" by auto
  from Cons.prems have evs: "Stop \<notin> set evs" "list_all (\<lambda>e. \<not> fatal e) evs" by auto
  from step_keeps_running [OF e Cons.prems(3,4,5)] Cons.IH [OF evs, of "step s e"]
  show ?case by (simp add: run_def)
qed

lemma resume_not_running:
  assumes "\<not> isRunning orc"
  shows "cycleCount (ostats (fst (resume orc p out))) = cycleCount (ostats orc)"
    and "\<not> isRunning (fst (resume orc p out))"
    and "\<not> working p \<Longrightarrow> \<not> working (snd (resume orc p out))"
  using assms
  by (cases "(orc, p, out)" rule: resume.cases;
      auto simp: loop_head_def credit_def executeTask_def working_def split: prod.splits)+

lemma work_left_next_agent: "work_left (next_agent rest) \<le> 1 + 4 * length rest"
  by (cases rest) auto

lemma work_left_next_task: "work_left (next_task i ts rest) \<le> 1 + length ts + 4 * length rest"
  using work_left_next_agent [of rest] by (cases ts) auto

lemma resume_work_left:
  assumes "\<not> isRunning orc" "live p"
  shows "work_left (snd (resume orc p out)) < work_left p"
proof (cases p)
  case (Sleeping ms)
  with assms show ?thesis by (simp add: loop_head_def)
next
  case Exited
  with assms show ?thesis by (simp add: live_def)
next
  case (Discovering i rest)
  show ?thesis
  proof (cases out)
    case (Fulfilled now rnd)
    have "work_left (next_task i (take 2 (findTasks (agents orc ! i) now)) rest) \<le> 2 + 4 * length rest"
      using work_left_next_task [of i "take 2 (findTasks (agents orc ! i) now)" rest]
      by (simp add: findTasks_def)
    with Discovering Fulfilled show ?thesis by simp
  next
    case (Rejected th)
    with Discovering show ?thesis by (cases th) simp_all
  qed
next
  case (Executing i t ts rest)
  show ?thesis
  proof (cases out)
    case (Fulfilled now rnd)
    with Executing work_left_next_task [of i ts rest] show ?thesis
      by (simp add: case_prod_beta)
  next
    case (Rejected th)
    with Executing show ?thesis by (cases th) simp_all
  qed
qed

lemma step_not_running:
  assumes "e \<noteq> Start" "\<not> isRunning (orch s)" "k < length (loops s)"
  shows "cycleCount (ostats (orch (step s e))) = cycleCount (ostats (orch s)) \<and>
         \<not> isRunning (orch (step s e)) \<and> length (loops (step s e)) = length (loops s) \<and>
         (\<not> working (loops s ! k) \<longrightarrow> \<not> working (loops (step s e) ! k))"
proof (cases e)
  case Start
  with assms show ?thesis by simp
next
  case Stop
  with assms show ?thesis by (simp add: stop_def)
next
  case (Settle j out)
  show ?thesis
  proof (cases "j < length (loops s)")
    case False
    with assms Settle show ?thesis by simp
  next
    case True
    have "\<not> working (loops s ! k) \<longrightarrow>
        \<not> working ((loops s)[j := snd (resume (orch s) (loops s ! j) out)] ! k)"
      using resume_not_running(3) [OF assms(2), of "loops s ! k" out] assms(3)
      by (cases "j = k") auto
    with True Settle resume_not_running(1,2) [OF assms(2), of "loops s ! j" out]
    show ?thesis by (simp add: case_prod_beta)
  qed
qed

lemma run_not_running:
  "Start \<notin> set evs \<Longrightarrow> \<not> isRunning (orch s) \<Longrightarrow> k < length (loops s) \<Longrightarrow>
     cycleCount (ostats (orch (run s evs))) = cycleCount (ostats (orch s)) \<and>
     \<not> isRunning (orch (run s evs)) \<and> length (loops (run s evs)) = length (loops s) \<and>
     (\<not> working (loops s ! k) \<longrightarrow> \<not> working (loops (run s evs) ! k))"
proof (induction evs arbitrary: s)
  case Nil
  then show ?case by (simp add: run_def)
next
  case (Cons e evs)
  from Cons.prems have "e \<noteq> Start" by auto
  from step_not_running [OF this Cons.prems(2,3)]
  have st: "cycleCount (ostats (orch (step s e))) = cycleCount (ostats (orch s))"
    "\<not> isRunning (orch (step s e))" "length (loops (step s e)) = length (loops s)"
    "\<not> working (loops s ! k) \<longrightarrow> \<not> working (loops (step s e) ! k)"
    by simp_all
  from Cons.prems have "Start \<notin> set evs" by simp
  from Cons.IH [OF this st(2)] st(3) Cons.prems(3)
  have ih: "cycleCount (ostats (orch (run (step s e) evs))) = cycleCount (ostats (orch (step s e)))"
    "\<not> isRunning (orch (run (step s e) evs))"
    "length (loops (run (step s e) evs)) = length (loops (step s e))"
    "\<not> working (loops (step s e) ! k) \<longrightarrow> \<not> working (loops (run (step s e) evs) ! k)"
    by simp_all
  have "run s (e # evs) = run (step s e) evs" by (simp add: run_def)
  with st ih show ?case by simp
qed

subsection \<open>The rest of a cycle\<close>

lemma next_task_point:
  "working (next_task i ts rest) \<or> next_task i ts rest = Sleeping 300000"
  by (cases ts; cases rest) (simp_all add: working_def)

lemma settles_left_next_task: "settles_left (next_task i ts rest) = length ts + 2 * length rest"
  by (cases ts; cases rest) simp_all

lemma tasks_left_next_task: "tasks_left (next_task i ts rest) = length ts + length rest"
  by (cases ts; cases rest) simp_all

lemma resume_flag_free:
  "working p \<Longrightarrow>
     resume (orc\<lparr>isRunning := b\<rparr>) p out =
       ((fst (resume orc p out))\<lparr>isRunning := b\<rparr>, snd (resume orc p out))"
  by (cases "(orc, p, out)" rule: resume.cases)
    (auto simp: working_def credit_def executeTask_def case_prod_beta)

lemma resume_fulfilled:
  assumes w: "working p" and g: "fgt rnd (lit 25 2)"
  shows "(working (snd (resume orc p (Fulfilled now rnd))) \<or>
          snd (resume orc p (Fulfilled now rnd)) = Sleeping 300000) \<and>
         Suc (settles_left (snd (resume orc p (Fulfilled now rnd)))) = settles_left p \<and>
         tasksCompleted (ostats (fst (resume orc p (Fulfilled now rnd)))) +
           tasks_left (snd (resume orc p (Fulfilled now rnd))) =
           tasksCompleted (ostats orc) + tasks_left p \<and>
         cycleCount (ostats (fst (resume orc p (Fulfilled now rnd)))) = cycleCount (ostats orc)"
proof (cases p)
  case (Discovering i rest)
  then show ?thesis by (simp add: findTasks_def working_def)
next
  case (Executing i t ts rest)
  with g next_task_point [of i ts rest] show ?thesis
    by (simp add: executeTask_def credit_def settles_left_next_task tasks_left_next_task)
next
  case (Sleeping ms)
  with w show ?thesis by (simp add: working_def)
next
  case Exited
  with w show ?thesis by (simp add: working_def)
qed

lemma finish_cycle:
  assumes g: "fgt rnd (lit 25 2)"
  shows "\<not> isRunning (orch s) \<Longrightarrow> k < length (loops s) \<Longrightarrow>
     working (loops s ! k) \<or> loops s ! k = Sleeping 300000 \<Longrightarrow>
     settles_left (loops s ! k) = n \<Longrightarrow>
       k < length (loops (run s (replicate n (Settle k (Fulfilled now rnd))))) \<and>
       \<not> isRunning (orch (run s (replicate n (Settle k (Fulfilled now rnd))))) \<and>
       loops (run s (replicate n (Settle k (Fulfilled now rnd)))) ! k = Sleeping 300000 \<and>
       tasksCompleted (ostats (orch (run s (replicate n (Settle k (Fulfilled now rnd)))))) =
         tasksCompleted (ostats (orch s)) + tasks_left (loops s ! k) \<and>
       cycleCount (ostats (orch (run s (replicate n (Settle k (Fulfilled now rnd)))))) =
         cycleCount (ostats (orch s))"
proof (induction n arbitrary: s)
  case 0
  then have "loops s ! k = Sleeping 300000"
    by (cases "loops s ! k") (auto simp: working_def)
  with 0 show ?case by (simp add: run_def)
next
  case (Suc n)
  let ?e = "Settle k (Fulfilled now rnd)"
  let ?p = "loops s ! k"
  from Suc.prems have w: "working ?p" by auto
  note r = resume_fulfilled [OF w g, of "orch s" now]
  have s1: "step s ?e = \<lparr>orch = fst (resume (orch s) ?p (Fulfilled now rnd)),
      loops = (loops s)[k := snd (resume (orch s) ?p (Fulfilled now rnd))]\<rparr>"
    using Suc.prems(2) by (rule step_settle)
  have a: "\<not> isRunning (orch (step s ?e))"
    unfolding s1 using Suc.prems(1) by (simp add: resume_isRunning)
  have b: "k < length (loops (step s ?e))"
    unfolding s1 using Suc.prems(2) by simp
  have q: "loops (step s ?e) ! k = snd (resume (orch s) ?p (Fulfilled now rnd))"
    unfolding s1 using Suc.prems(2) by simp
  have o: "orch (step s ?e) = fst (resume (orch s) ?p (Fulfilled now rnd))"
    unfolding s1 by simp
  have c: "working (loops (step s ?e) ! k) \<or> loops (step s ?e) ! k = Sleeping 300000"
    unfolding q using r by simp
  have d: "settles_left (loops (step s ?e) ! k) = n"
    unfolding q using r Suc.prems(4) by simp
  have t: "tasksCompleted (ostats (orch (step s ?e))) + tasks_left (loops (step s ?e) ! k) =
      tasksCompleted (ostats (orch s)) + tasks_left ?p"
    unfolding q o using r by simp
  have cc: "cycleCount (ostats (orch (step s ?e))) = cycleCount (ostats (orch s))"
    unfolding o using r by simp
  have "run s (replicate (Suc n) ?e) = run (step s ?e) (replicate n ?e)"
    by (simp add: run_def)
  with Suc.IH [OF a b c d] t cc show ?case by simp
qed

section \<open>The claims\<close>

subsection \<open>C1\<close>

text \<open>
  Claim C1, as stated, fails for the earnings. After \<open>two_cycles\<close> each worker has earned
  \<^verbatim>\<open>0.01 + 0.01\<close>, and the aggregate is the sum of six rewards added one by one, which is
  \<^verbatim>\<open>0.060000000000000005\<close>: this is neither the exact sum of the three workers' totals
  nor their sum in double precision (\<^verbatim>\<open>0.06\<close>). \<^verbatim>\<open>getStats\<close> shows both.
\<close>

theorem aggregate_earnings_differ_from_workers_sum:
  "totalEarnings (getStats (orch (run boot two_cycles)) ''12:00:00'') =
     Fin (8646911284551353 / 144115188075855872) \<and>
   map totalEarnings (snap_agents (getStats (orch (run boot two_cycles)) ''12:00:00'')) =
     [Fin (5764607523034235 / 288230376151711744), Fin (5764607523034235 / 288230376151711744),
      Fin (5764607523034235 / 288230376151711744)] \<and>
   (8646911284551353 / 144115188075855872 :: rat) \<noteq>
     5764607523034235 / 288230376151711744 + 5764607523034235 / 288230376151711744 +
     5764607523034235 / 288230376151711744 \<and>
   foldl fadd (Fin 0)
     (map totalEarnings (snap_agents (getStats (orch (run boot two_cycles)) ''12:00:00''))) \<noteq>
     totalEarnings (getStats (orch (run boot two_cycles)) ''12:00:00'')"
proof -
  let ?g = "getStats (orch (run boot two_cycles)) ''12:00:00''"
  have t: "totalEarnings ?g = Fin (8646911284551353 / 144115188075855872)"
    by (simp add: two_cycles_state getStats_def)
  have w: "map totalEarnings (snap_agents ?g) =
      [Fin (5764607523034235 / 288230376151711744), Fin (5764607523034235 / 288230376151711744),
       Fin (5764607523034235 / 288230376151711744)]"
    by (simp add: two_cycles_state getStats_def agent_getStats_def)
  have "foldl fadd (Fin 0) (map totalEarnings (snap_agents ?g)) =
      Fin (1080863910568919 / 18014398509481984)"
    unfolding w by (rule workers_sum)
  then have "foldl fadd (Fin 0) (map totalEarnings (snap_agents ?g)) \<noteq> totalEarnings ?g"
    by (simp add: t)
  with t w show ?thesis by simp
qed

text \<open>
  Claim C1, amended: in every state a reader can observe (after any sequence of calls
  of \<^verbatim>\<open>start\<close> and \<^verbatim>\<open>stop\<close> and of settled awaits, from the construction of the
  orchestrator on), \<^verbatim>\<open>getStats\<close> reports an aggregate \<open>tasksCompleted\<close> equal to the sum
  of the workers' \<open>tasksCompleted\<close>: a worker's counters and the aggregate change in the
  same uninterrupted run of the loop. Every worker's \<open>totalEarnings\<close> is the rounded
  running sum of as many rewards as its own \<open>tasksCompleted\<close>, and the aggregate
  \<open>totalEarnings\<close> is the rounded running sum of as many rewards as the workers'
  \<open>tasksCompleted\<close> add up to.
\<close>

theorem getStats_aggregate_consistent:
  "tasksCompleted (getStats (orch (run boot evs)) clock) =
     sum_list (map tasksCompleted (snap_agents (getStats (orch (run boot evs)) clock))) \<and>
   totalEarnings (getStats (orch (run boot evs)) clock) =
     rsum (sum_list (map tasksCompleted (snap_agents (getStats (orch (run boot evs)) clock)))) \<and>
   list_all (\<lambda>a. totalEarnings a = rsum (tasksCompleted a))
     (snap_agents (getStats (orch (run boot evs)) clock))"
proof -
  have "consistent (run boot evs)" by (rule consistent_run [OF consistent_boot])
  then show ?thesis
    by (simp add: consistent_def getStats_def agent_getStats_def comp_def list_all_iff)
qed

subsection \<open>C2\<close>

text \<open>
  Claim C2, as stated, fails: the JSON parser of \<^verbatim>\<open>app.use(express.json())\<close> reads the
  body of every request before the handler compares the key. A request with a wrong
  key and a body that is not valid JSON is answered with the parser's 400, not with
  an authorization failure.
\<close>

theorem payout_wrong_key_unparsable_body:
  "payout_route (\<lambda>v. NaN) (Some ''secret'') (Some refusing)
     \<lparr>header_key = Some ''guess'', content = Unparsable\<rparr> =
   (Json 400 ParserErrorBody, [])"
  by (simp add: payout_route_def)

lemma payout_unauthorized_rejected_first:
  "apiKey req \<noteq> adminKey \<Longrightarrow>
     payout co adminKey ws req = (Json 403 (FailureBody (Msg ''Unauthorized'')), [])"
  by (simp add: payout_def)

text \<open>
  Claim C2, amended: for a payout request whose \<^verbatim>\<open>x-api-key\<close> header differs from the
  configured admin key, \<^verbatim>\<open>sendETH\<close> is never called. If the JSON parser accepts the body,
  the request is answered with status 403 and \<^verbatim>\<open>Unauthorized\<close>, whatever the fields hold
  (the handler does not look at them); a body the parser refuses is answered with its
  status 400.
\<close>

theorem payout_wrong_key_never_pays:
  "header_key rq \<noteq> adminKey \<Longrightarrow>
     snd (payout_route co adminKey ws rq) = [] \<and>
     fst (payout_route co adminKey ws rq) =
       (case content rq of
          Unparsable \<Rightarrow> Json 400 ParserErrorBody
        | Parsed a b \<Rightarrow> Json 403 (FailureBody (Msg ''Unauthorized'')))"
  by (simp add: payout_route_def payout_unauthorized_rejected_first split: payload.splits)

theorem payout_wrong_key_never_pays_witness:
  "payout_route (\<lambda>v. NaN) (Some ''secret'') (Some refusing)
     \<lparr>header_key = Some ''guess'', content = Parsed (JStr ''0xVALID'') (JNum (Fin 1))\<rparr> =
   (Json 403 (FailureBody (Msg ''Unauthorized'')), [])"
proof -
  have "header_key \<lparr>header_key = Some ''guess'',
      content = Parsed (JStr ''0xVALID'') (JNum (Fin 1))\<rparr> \<noteq> Some ''secret''"
    by simp
  from payout_wrong_key_never_pays [OF this, of "\<lambda>v. NaN" "Some refusing"]
  show ?thesis by (simp add: prod_eq_iff)
qed

subsection \<open>C3\<close>

text \<open>
  Claim C3, as stated, fails: the handler tests the amount for truthiness only. An
  authorized request with the amount \<open>-5\<close> passes the test, and \<^verbatim>\<open>sendETH\<close> is called with
  the net amount \<open>-4.9\<close>; the answer is what the wallet service makes of it.
\<close>

theorem payout_negative_amount_reaches_ledger:
  "payout (\<lambda>v. NaN) (Some ''secret'') (Some refusing)
     \<lparr>apiKey = Some ''secret'', toAddress = JStr ''0xVALID'', amount = JNum (Fin (- 5))\<rparr> =
   (Json 500 (FailureBody (Msg ''insufficient funds'')),
    [(JStr ''0xVALID'', Fin (- (2758454771764429 / 562949953421312)))])"
  by (simp add: payout_def sendETH_def refusing_def net_of_minus_five)

text \<open>
  Claim C3, amended: an authorized payout request whose amount is absent, \<^verbatim>\<open>null\<close>,
  \<^verbatim>\<open>false\<close>, zero, NaN or the empty string is answered with status 400 and
  \<^verbatim>\<open>Missing fields\<close>, and \<^verbatim>\<open>sendETH\<close> is not called.
\<close>

theorem payout_missing_amount_rejected:
  "apiKey req = adminKey \<Longrightarrow>
   amount req \<in> {JUndefined, JNull, JBool False, JNum (Fin 0), JNum NaN, JStr []} \<Longrightarrow>
     payout co adminKey ws req = (Json 400 (ErrorBody (Msg ''Missing fields'')), [])"
  by (auto simp: payout_def)

theorem payout_missing_amount_rejected_witness:
  "payout (\<lambda>v. NaN) (Some ''secret'') (Some refusing)
     \<lparr>apiKey = Some ''secret'', toAddress = JStr ''0xVALID'', amount = JUndefined\<rparr> =
   (Json 400 (ErrorBody (Msg ''Missing fields'')), [])"
  by (rule payout_missing_amount_rejected) simp_all

subsection \<open>C4\<close>

text \<open>
  Claim C4, as stated, fails: the loop reads the running flag at the head of the
  \<^verbatim>\<open>while\<close> loop only. Here \<^verbatim>\<open>stop\<close> is called while the first agent discovers; the
  agent's step completes (its task is found and executed), and then the loop goes on
  to the discovery of the second agent, with the flag off.
\<close>

theorem stop_mid_cycle_continues_work:
  "\<not> isRunning (orch (run boot [Start, Stop, ok, ok])) \<and>
   loops (run boot [Start, Stop, ok, ok]) = [Discovering 1 [2]] \<and>
   working (loops (run boot [Start, Stop, ok, ok]) ! 0)"
  by (simp add: stopped_in_discovery working_def)

text \<open>
  Claim C4, amended: \<^verbatim>\<open>stop\<close> changes the running flag and nothing else. While the flag
  is off and \<^verbatim>\<open>start\<close> is not called, no further cycle begins (\<open>cycleCount\<close> stays as it
  is). A loop finishes the cycle it is in, the remaining agents included: inside a
  cycle it does, each time what it awaits settles, exactly what it would do with the
  flag on; when every call returns and every task succeeds it reaches the sleep of
  300000 ms after \<open>settles_left\<close> settlings, having completed \<open>tasks_left\<close> more tasks.
  Each settling brings it strictly nearer to leaving the \<^verbatim>\<open>while\<close> loop; when its sleep
  is over it leaves without touching the orchestrator, and once it sleeps or has left
  it never discovers or executes again. A \<^verbatim>\<open>start\<close> after all loops have left begins
  exactly one loop and keeps the agents, \<open>totalEarnings\<close> and \<open>tasksCompleted\<close>;
  \<open>cycleCount\<close> goes on from its value.
\<close>

theorem stop_ends_loop_after_cycle:
  assumes evs: "Start \<notin> set evs" and r: "\<not> isRunning (orch s)" and k: "k < length (loops s)"
  shows "step s0 Stop = s0\<lparr>orch := (orch s0)\<lparr>isRunning := False\<rparr>\<rparr> \<and>
         cycleCount (ostats (orch (run s evs))) = cycleCount (ostats (orch s)) \<and>
         (\<not> working (loops s ! k) \<longrightarrow> \<not> working (loops (run s evs) ! k)) \<and>
         (live (loops s ! k) \<longrightarrow>
            work_left (loops (step s (Settle k out)) ! k) < work_left (loops s ! k)) \<and>
         (list_all (\<lambda>p. p = Exited) (loops s) \<longrightarrow>
            length (filter live (loops (step s Start))) = 1 \<and>
            isRunning (orch (step s Start)) \<and>
            agents (orch (step s Start)) = agents (orch s) \<and>
            totalEarnings (ostats (orch (step s Start))) = totalEarnings (ostats (orch s)) \<and>
            tasksCompleted (ostats (orch (step s Start))) = tasksCompleted (ostats (orch s)) \<and>
            cycleCount (ostats (orch (step s Start))) = cycleCount (ostats (orch s)) + 1) \<and>
         (working (loops s ! k) \<longrightarrow>
            step (s\<lparr>orch := (orch s)\<lparr>isRunning := True\<rparr>\<rparr>) (Settle k out) =
              (step s (Settle k out))
                \<lparr>orch := (orch (step s (Settle k out)))\<lparr>isRunning := True\<rparr>\<rparr>) \<and>
         (working (loops s ! k) \<and> fgt rnd (lit 25 2) \<longrightarrow>
            loops (run s (replicate (settles_left (loops s ! k)) (Settle k (Fulfilled now rnd)))) ! k =
              Sleeping 300000 \<and>
            tasksCompleted (ostats (orch
                (run s (replicate (settles_left (loops s ! k)) (Settle k (Fulfilled now rnd)))))) =
              tasksCompleted (ostats (orch s)) + tasks_left (loops s ! k)) \<and>
         (loops s ! k = Sleeping ms \<longrightarrow>
            loops (step s (Settle k out)) ! k = Exited \<and> orch (step s (Settle k out)) = orch s)"
proof -
  have a: "step s0 Stop = s0\<lparr>orch := (orch s0)\<lparr>isRunning := False\<rparr>\<rparr>"
    by (simp add: stop_def)
  have b: "live (loops s ! k) \<longrightarrow>
      work_left (loops (step s (Settle k out)) ! k) < work_left (loops s ! k)"
    using k resume_work_left [OF r, of "loops s ! k" out] by (simp add: case_prod_beta)
  have c: "list_all (\<lambda>p. p = Exited) (loops s) \<longrightarrow>
      length (filter live (loops (step s Start))) = 1"
  proof
    assume "list_all (\<lambda>p. p = Exited) (loops s)"
    then have "filter live (loops s) = []"
      by (simp add: live_def list_all_iff filter_empty_conv)
    then show "length (filter live (loops (step s Start))) = 1"
      using r by (simp add: loop_head_def next_agent_live live_def)
  qed
  have d: "isRunning (orch (step s Start)) \<and>
      agents (orch (step s Start)) = agents (orch s) \<and>
      totalEarnings (ostats (orch (step s Start))) = totalEarnings (ostats (orch s)) \<and>
      tasksCompleted (ostats (orch (step s Start))) = tasksCompleted (ostats (orch s)) \<and>
      cycleCount (ostats (orch (step s Start))) = cycleCount (ostats (orch s)) + 1"
    using r by (simp add: loop_head_def)
  have e: "working (loops s ! k) \<longrightarrow>
      step (s\<lparr>orch := (orch s)\<lparr>isRunning := True\<rparr>\<rparr>) (Settle k out) =
        (step s (Settle k out))\<lparr>orch := (orch (step s (Settle k out)))\<lparr>isRunning := True\<rparr>\<rparr>"
  proof
    assume w: "working (loops s ! k)"
    have k': "k < length (loops (s\<lparr>orch := (orch s)\<lparr>isRunning := True\<rparr>\<rparr>))"
      using k by simp
    show "step (s\<lparr>orch := (orch s)\<lparr>isRunning := True\<rparr>\<rparr>) (Settle k out) =
        (step s (Settle k out))\<lparr>orch := (orch (step s (Settle k out)))\<lparr>isRunning := True\<rparr>\<rparr>"
      unfolding step_settle [OF k] step_settle [OF k']
      by (simp add: resume_flag_free [OF w])
  qed
  have f: "working (loops s ! k) \<and> fgt rnd (lit 25 2) \<longrightarrow>
      loops (run s (replicate (settles_left (loops s ! k)) (Settle k (Fulfilled now rnd)))) ! k =
        Sleeping 300000 \<and>
      tasksCompleted (ostats (orch
          (run s (replicate (settles_left (loops s ! k)) (Settle k (Fulfilled now rnd)))))) =
        tasksCompleted (ostats (orch s)) + tasks_left (loops s ! k)"
  proof
    assume "working (loops s ! k) \<and> fgt rnd (lit 25 2)"
    then have g: "fgt rnd (lit 25 2)"
      and w: "working (loops s ! k) \<or> loops s ! k = Sleeping 300000" by simp_all
    from finish_cycle [OF g r k w refl, of now]
    show "loops (run s (replicate (settles_left (loops s ! k)) (Settle k (Fulfilled now rnd)))) ! k =
        Sleeping 300000 \<and>
      tasksCompleted (ostats (orch
          (run s (replicate (settles_left (loops s ! k)) (Settle k (Fulfilled now rnd)))))) =
        tasksCompleted (ostats (orch s)) + tasks_left (loops s ! k)"
      by simp
  qed
  have h: "loops s ! k = Sleeping ms \<longrightarrow>
      loops (step s (Settle k out)) ! k = Exited \<and> orch (step s (Settle k out)) = orch s"
    unfolding step_settle [OF k] using r k by (simp add: loop_head_def)
  from run_not_running [OF evs r k] a b c d e f h show ?thesis by simp
qed

theorem stop_ends_loop_after_cycle_witness:
  "cycleCount (ostats (orch (run (run boot [Start, Stop]) [ok, ok, Stop, ok]))) = 1 \<and>
   work_left (loops (step (run boot [Start, Stop]) ok) ! 0) <
     work_left (loops (run boot [Start, Stop]) ! 0) \<and>
   loops (run (run boot [Start, Stop]) (replicate 6 ok)) ! 0 = Sleeping 300000 \<and>
   tasksCompleted (ostats (orch (run (run boot [Start, Stop]) (replicate 6 ok)))) = 3 \<and>
   \<not> working (loops (run (run boot (Start # Stop # one_cycle)) [ok, ok]) ! 0) \<and>
   loops (step (run boot (Start # Stop # one_cycle)) ok) ! 0 = Exited \<and>
   length (filter live (loops (step (run boot (Start # Stop # one_cycle @ [ok])) Start))) = 1 \<and>
   tasksCompleted (ostats (orch (step (run boot (Start # Stop # one_cycle @ [ok])) Start))) = 3 \<and>
   cycleCount (ostats (orch (step (run boot (Start # Stop # one_cycle @ [ok])) Start))) = 2"
proof -
  let ?s1 = "run boot [Start, Stop]"
  let ?s2 = "run boot (Start # Stop # one_cycle)"
  let ?s3 = "run boot (Start # Stop # one_cycle @ [ok])"
  let ?f = "Fulfilled 0 (Fin (1 / 2))"
  have s1: "?s1 = \<lparr>orch = new_orchestrator\<lparr>isRunning := False,
       ostats := \<lparr>tasksCompleted = 0, totalEarnings = Fin 0, cycleCount = 1\<rparr>\<rparr>,
     loops = [Discovering 0 [1, 2]]\<rparr>"
    by (simp add: run_eval)
  have s2: "\<not> isRunning (orch ?s2) \<and> loops ?s2 = [Sleeping 300000]"
    by (simp add: run_eval half_gt_quarter fadd_cents)
  have s3: "\<not> isRunning (orch ?s3) \<and> loops ?s3 = [Exited] \<and>
      tasksCompleted (ostats (orch ?s3)) = 3 \<and> cycleCount (ostats (orch ?s3)) = 1"
    by (simp add: run_eval half_gt_quarter fadd_cents)
  have e: "Start \<notin> set [ok, ok, Stop, ok]" "Start \<notin> set [ok, ok]" "Start \<notin> set ([] :: event list)"
    by (simp_all add: ok_def)
  have a: "\<not> isRunning (orch ?s1)" "0 < length (loops ?s1)" "live (loops ?s1 ! 0)"
    "working (loops ?s1 ! 0)" "settles_left (loops ?s1 ! 0) = 6" "tasks_left (loops ?s1 ! 0) = 3"
    "tasksCompleted (ostats (orch ?s1)) = 0" "cycleCount (ostats (orch ?s1)) = 1"
    by (simp_all add: s1 live_def working_def new_orchestrator_def)
  have b: "\<not> isRunning (orch ?s2)" "0 < length (loops ?s2)" "\<not> working (loops ?s2 ! 0)"
    "loops ?s2 ! 0 = Sleeping 300000"
    using s2 by (simp_all add: working_def)
  have c: "\<not> isRunning (orch ?s3)" "0 < length (loops ?s3)"
    "list_all (\<lambda>p. p = Exited) (loops ?s3)"
    using s3 by simp_all
  from stop_ends_loop_after_cycle [OF e(1) a(1,2),
      where ?s0.0 = boot and out = ?f and rnd = "Fin (1 / 2)" and now = 0 and ms = 0]
    a(3,4) half_gt_quarter
  have "cycleCount (ostats (orch (run ?s1 [ok, ok, Stop, ok]))) = cycleCount (ostats (orch ?s1)) \<and>
      work_left (loops (step ?s1 ok) ! 0) < work_left (loops ?s1 ! 0) \<and>
      loops (run ?s1 (replicate (settles_left (loops ?s1 ! 0)) ok)) ! 0 = Sleeping 300000 \<and>
      tasksCompleted (ostats (orch (run ?s1 (replicate (settles_left (loops ?s1 ! 0)) ok)))) =
        tasksCompleted (ostats (orch ?s1)) + tasks_left (loops ?s1 ! 0)"
    by (simp add: ok_def)
  then have p1: "cycleCount (ostats (orch (run ?s1 [ok, ok, Stop, ok]))) = 1 \<and>
      work_left (loops (step ?s1 ok) ! 0) < work_left (loops ?s1 ! 0) \<and>
      loops (run ?s1 (replicate 6 ok)) ! 0 = Sleeping 300000 \<and>
      tasksCompleted (ostats (orch (run ?s1 (replicate 6 ok)))) = 3"
    by (simp only: a(5,6,7,8)) simp
  from stop_ends_loop_after_cycle [OF e(2) b(1,2),
      where ?s0.0 = boot and out = ?f and rnd = "Fin (1 / 2)" and now = 0 and ms = 300000] b(3,4)
  have p2: "\<not> working (loops (run ?s2 [ok, ok]) ! 0) \<and> loops (step ?s2 ok) ! 0 = Exited"
    by (simp add: ok_def)
  from stop_ends_loop_after_cycle [OF e(3) c(1,2),
      where ?s0.0 = boot and out = ?f and rnd = "Fin (1 / 2)" and now = 0 and ms = 0] c(3)
  have "length (filter live (loops (step ?s3 Start))) = 1 \<and>
      tasksCompleted (ostats (orch (step ?s3 Start))) = tasksCompleted (ostats (orch ?s3)) \<and>
      cycleCount (ostats (orch (step ?s3 Start))) = cycleCount (ostats (orch ?s3)) + 1"
    by simp
  with p1 p2 show ?thesis using s3 by simp
qed

subsection \<open>C5\<close>

text \<open>
  Claim C5: for an authorized payout request with the amount 100, a truthy address
  and the wallet service initialised, the fee \<^verbatim>\<open>amount * 0.02\<close> is 2 and the net amount
  is 98: \<^verbatim>\<open>sendETH\<close> is called once, with the request's address and exactly 98, and the
  answer to a confirmed transfer reports the amount 98 and the fee 2.
\<close>

theorem payout_hundred_sends_ninety_eight:
  "apiKey req = adminKey \<Longrightarrow> truthy (toAddress req) \<Longrightarrow> amount req = JNum (Fin 100) \<Longrightarrow>
     snd (payout co adminKey (Some ch) req) = [(toAddress req, Fin 98)] \<and>
     fst (payout co adminKey (Some ch) req) =
       (case sendETH ch (toAddress req) (Fin 98) of
          Inl msg \<Rightarrow> Json 500 (FailureBody (Msg msg))
        | Inr result \<Rightarrow> Json 200 (PayoutBody result (Fin 98) (Fin 2)))"
  by (simp add: payout_def fee_of_hundred net_of_hundred Let_def split: sum.splits)

theorem payout_hundred_sends_ninety_eight_witness:
  "payout (\<lambda>v. NaN) (Some ''secret'')
     (Some \<lparr>isAddress = (\<lambda>v. True), transact = (\<lambda>a n. Inr (''0xabc'', 7))\<rparr>)
     \<lparr>apiKey = Some ''secret'', toAddress = JStr ''0xVALID'', amount = JNum (Fin 100)\<rparr> =
   (Json 200 (PayoutBody \<lparr>txHash = ''0xabc'', blockNumber = 7\<rparr> (Fin 98) (Fin 2)),
    [(JStr ''0xVALID'', Fin 98)])"
proof -
  let ?ch = "\<lparr>isAddress = (\<lambda>v. True), transact = (\<lambda>a n. Inr (''0xabc'', 7 :: nat))\<rparr>"
  let ?req = "\<lparr>apiKey = Some ''secret'', toAddress = JStr ''0xVALID'', amount = JNum (Fin 100)\<rparr>"
  have "apiKey ?req = Some ''secret''" "truthy (toAddress ?req)" "amount ?req = JNum (Fin 100)"
    by simp_all
  from payout_hundred_sends_ninety_eight [OF this, of "\<lambda>v. NaN" ?ch]
  show ?thesis by (simp add: prod_eq_iff sendETH_def)
qed

subsection \<open>C6\<close>

text \<open>
  Claim C6: \<^verbatim>\<open>executeTask\<close> succeeds exactly when \<^verbatim>\<open>Math.random()\<close> exceeds \<^verbatim>\<open>0.25\<close>. On
  success the worker's \<open>tasksCompleted\<close> has grown by one and its \<open>totalEarnings\<close> by the
  task's reward (added with \<^verbatim>\<open>+=\<close>), nothing else of the worker has changed, and the
  result carries \<open>success = true\<close> and the reward as earnings. On failure the worker is
  unchanged and the result carries \<open>success = false\<close> and no earnings.
\<close>

theorem executeTask_counters:
  "executeTask a t rnd = (a', r) \<Longrightarrow>
     success r = fgt rnd (lit 25 2) \<and>
     (if success r
      then tasksCompleted (stats a') = tasksCompleted (stats a) + 1 \<and>
           totalEarnings (stats a') = fadd (totalEarnings (stats a)) (reward t) \<and>
           successRate (stats a') = successRate (stats a) \<and>
           name a' = name a \<and> capabilities a' = capabilities a \<and> isActive a' = isActive a \<and>
           earnings r = Some (reward t)
      else a' = a \<and> earnings r = None)"
  by (auto simp: executeTask_def split: if_splits)

theorem executeTask_counters_witness:
  "(let (a', r) = executeTask (new_agent ''GitcoinAgent'' [''web3''])
                    \<lparr>task_id = 0, title = ''Sample Task'', reward = Fin 3, task_keywords = []\<rparr>
                    (Fin (1 / 2))
    in success r \<and> tasksCompleted (stats a') = 1 \<and> earnings r = Some (Fin 3)) \<and>
   (let (a', r) = executeTask (new_agent ''GitcoinAgent'' [''web3''])
                    \<lparr>task_id = 0, title = ''Sample Task'', reward = Fin 3, task_keywords = []\<rparr>
                    (Fin (1 / 4))
    in \<not> success r \<and> a' = new_agent ''GitcoinAgent'' [''web3''] \<and> earnings r = None)"
proof -
  let ?a = "new_agent ''GitcoinAgent'' [''web3'']"
  let ?t = "\<lparr>task_id = 0, title = ''Sample Task'', reward = Fin 3, task_keywords = []\<rparr>"
  obtain a1 r1 where e1: "executeTask ?a ?t (Fin (1 / 2)) = (a1, r1)" by fastforce
  obtain a2 r2 where e2: "executeTask ?a ?t (Fin (1 / 4)) = (a2, r2)" by fastforce
  have g1: "fgt (Fin (1 / 2)) (lit 25 2)" by (rule half_gt_quarter)
  have g2: "\<not> fgt (Fin (1 / 4)) (lit 25 2)" by (simp add: lit_25_2)
  from executeTask_counters [OF e1] g1
  have "success r1 \<and> tasksCompleted (stats a1) = 1 \<and> earnings r1 = Some (Fin 3)"
    by (simp add: new_agent_def)
  moreover from executeTask_counters [OF e2] g2
  have "\<not> success r2 \<and> a2 = ?a \<and> earnings r2 = None"
    by simp
  ultimately show ?thesis by (simp add: e1 e2)
qed

subsection \<open>C7\<close>


text \<open>
  What holds: when the discovery or the execution a running loop awaits throws a
  value whose message can be read, nothing of the orchestrator changes and the loop
  sleeps the backoff of 60000 ms instead of the 300000 ms that end a cycle. When that
  sleep is over (the flag still on) the loop begins a cycle: \<open>cycleCount\<close> grows by one
  and the loop has not left. Whatever happens afterwards, the loop does not leave as
  long as \<^verbatim>\<open>stop\<close> is not called and nothing rejects with \<^verbatim>\<open>null\<close> or \<^verbatim>\<open>undefined\<close>.
\<close>

lemma error_with_message_backs_off:
  assumes k: "k < length (loops s)" and w: "working (loops s ! k)"
    and r: "isRunning (orch s)" and evs: "Stop \<notin> set evs"
    and nf: "list_all (\<lambda>e. \<not> fatal e) evs"
  shows "step s (Settle k (Rejected (Err msg))) = s\<lparr>loops := (loops s)[k := Sleeping 60000]\<rparr> \<and>
         cycleCount (ostats (orch (step (step s (Settle k (Rejected (Err msg)))) (Settle k out)))) =
           cycleCount (ostats (orch s)) + 1 \<and>
         live (loops (step (step s (Settle k (Rejected (Err msg)))) (Settle k out)) ! k) \<and>
         live (loops (run (step s (Settle k (Rejected (Err msg)))) evs) ! k)"
proof -
  let ?s1 = "s\<lparr>loops := (loops s)[k := Sleeping 60000]\<rparr>"
  from k w have s1: "step s (Settle k (Rejected (Err msg))) = ?s1"
    by (cases "loops s ! k") (auto simp: working_def)
  have l1: "loops ?s1 ! k = Sleeping 60000" and k1: "k < length (loops ?s1)"
    and r1: "isRunning (orch ?s1)"
    using k r by simp_all
  have c: "cycleCount (ostats (orch (step ?s1 (Settle k out)))) = cycleCount (ostats (orch s)) + 1"
    using k r by (simp add: loop_head_def)
  have l: "live (loops ?s1 ! k)" using k by (simp add: live_def)
  have "live (loops (step ?s1 (Settle k out)) ! k)"
    using k r by (simp add: loop_head_def live_def next_agent_live)
  with run_keeps_running [OF evs nf r1 k1 l]
  show ?thesis using s1 c by simp
qed

lemma error_with_message_backs_off_example:
  "step (run boot [Start]) (Settle 0 (Rejected (Err ''timeout''))) =
     (run boot [Start])\<lparr>loops := [Sleeping 60000]\<rparr> \<and>
   cycleCount (ostats (orch
     (step (step (run boot [Start]) (Settle 0 (Rejected (Err ''timeout'')))) ok))) = 2 \<and>
   live (loops (run (step (run boot [Start]) (Settle 0 (Rejected (Err ''timeout''))))
                  [ok, Settle 0 (Rejected (Err ''again'')), Start, ok]) ! 0)"
proof -
  have "0 < length (loops (run boot [Start]))" "working (loops (run boot [Start]) ! 0)"
    "isRunning (orch (run boot [Start]))"
    "Stop \<notin> set [ok, Settle 0 (Rejected (Err ''again'')), Start, ok]"
    "list_all (\<lambda>e. \<not> fatal e) [ok, Settle 0 (Rejected (Err ''again'')), Start, ok]"
    by (simp_all add: started working_def ok_def)
  from error_with_message_backs_off [OF this, of "''timeout''" "Fulfilled 0 (Fin (1 / 2))"]
  show ?thesis by (simp add: started ok_def)
qed

subsection \<open>C8\<close>

text \<open>
  Claim C8 and the code: \<^verbatim>\<open>start\<close> while the flag is on changes nothing, and otherwise
  sets the flag and begins a loop. The flag does not say whether a loop is still
  alive, though: after \<^verbatim>\<open>start\<close>, \<^verbatim>\<open>stop\<close> and \<^verbatim>\<open>start\<close> again, before the first loop has
  come back to the head of its \<^verbatim>\<open>while\<close>, two loops are active on one orchestrator
  (and both stay, the flag being on again).
\<close>

theorem start_stop_start_two_loops:
  "loops (run boot [Start, Stop, Start]) = [Discovering 0 [1, 2], Discovering 0 [1, 2]] \<and>
   length (filter live (loops (run boot [Start, Stop, Start]))) = 2 \<and>
   isRunning (orch (run boot [Start, Stop, Start])) \<and>
   cycleCount (ostats (orch (run boot [Start, Stop, Start]))) = 2"
  by (simp add: run_eval live_def)

lemma start_while_running: "isRunning (orch s) \<Longrightarrow> step s Start = s"
  by simp

lemma start_when_stopped:
  "\<not> isRunning (orch s) \<Longrightarrow>
     isRunning (orch (step s Start)) \<and> length (loops (step s Start)) = length (loops s) + 1"
  by (simp add: loop_head_def case_prod_beta)

subsection \<open>C9\<close>

text \<open>
  Claim C9, as stated, fails: the earnings are double-precision sums. After
  \<open>two_cycles\<close> the aggregate counts six tasks and holds \<^verbatim>\<open>0.060000000000000005\<close>, which
  is neither the product \<^verbatim>\<open>0.01 * 6\<close> (that is \<^verbatim>\<open>0.06\<close>) nor six hundredths exactly.
\<close>

theorem earnings_not_cent_times_count:
  "tasksCompleted (ostats (orch (run boot two_cycles))) = 6 \<and>
   totalEarnings (ostats (orch (run boot two_cycles))) =
     Fin (8646911284551353 / 144115188075855872) \<and>
   fmul (lit 1 2) (Fin 6) \<noteq> totalEarnings (ostats (orch (run boot two_cycles))) \<and>
   (8646911284551353 / 144115188075855872 :: rat) \<noteq> 6 / 100"
  by (simp add: two_cycles_state cent_times_six)

text \<open>
  Claim C9, amended: in every observable state, the \<open>totalEarnings\<close> of the aggregate
  and of each worker is the result of adding \<^verbatim>\<open>0.01\<close> to zero as many times as its
  \<open>tasksCompleted\<close> says, each addition rounded to a double (which is \<^verbatim>\<open>0.01\<close> times
  \<open>tasksCompleted\<close> up to rounding).
\<close>

theorem earnings_are_running_sums:
  "totalEarnings (ostats (orch (run boot evs))) =
     rsum (tasksCompleted (ostats (orch (run boot evs)))) \<and>
   list_all (\<lambda>a. totalEarnings (stats a) = rsum (tasksCompleted (stats a)))
     (agents (orch (run boot evs)))"
proof -
  have "consistent (run boot evs)" by (rule consistent_run [OF consistent_boot])
  then show ?thesis by (simp add: consistent_def)
qed

subsection \<open>C10\<close>

text \<open>
  Claim C10: while the global \<^verbatim>\<open>orchestrator\<close> is still \<^verbatim>\<open>undefined\<close>, an emergency stop
  with the right admin key throws (it reads \<^verbatim>\<open>stop\<close> of \<^verbatim>\<open>undefined\<close>) and gives no
  answer of its own, whereas the stats and the agents routes answer with status 503
  and \<^verbatim>\<open>Not initialized\<close>.
\<close>

theorem emergency_stop_uninitialised_throws:
  "emergency_stop adminKey None adminKey = Inl TypeErrorMsg \<and>
   stats_route None clock = Json 503 (ErrorBody (Msg ''Not initialized'')) \<and>
   agents_route None = Json 503 (ErrorBody (Msg ''Not initialized''))"
  by (simp add: emergency_stop_def stats_route_def agents_route_def)

end
